theory Spec2Isabelle
  imports Main "HOL-Library.AList"
begin

section \<open>JavaScript values and the host environment\<close>

text \<open>
  The node modal (\<^verbatim>\<open>src/features/modals/NodeModal/index.tsx\<close>) edits one node of a JSON
  document. Strings are lists of code units below 256. Numbers are kept abstract (type
  parameter \<open>'n\<close>): the conversions between numbers and text belong to the JavaScript
  runtime and are fields of the record \<open>host\<close> below.
\<close>

datatype 'n jvalue =
    JUndefined
  | JNull
  | JBool bool
  | JNum 'n
  | JString string
  | JArray "'n jvalue list"
  | JObject "(string \<times> 'n jvalue) list"

text \<open>
  A path segment is an object key or an array index (\<^verbatim>\<open>(string | number)[]\<close>); index
  segments are exact non-negative integers.
\<close>

datatype segment = SKey string | SIdx nat

text \<open>
  The value of a row is a scalar, \<^verbatim>\<open>null\<close> or absent; its key is a string or absent; its
  type tag is compared with the literals \<^verbatim>\<open>"array"\<close> and \<^verbatim>\<open>"object"\<close> only.
\<close>

datatype 'n scalar = VUndefined | VNull | VBool bool | VNum 'n | VStr string

record 'n NodeRow =
  row_key :: "string option"
  row_value :: "'n scalar"
  row_type :: string

record 'n NodeData =
  node_id :: string
  node_text :: "'n NodeRow list"
  node_path :: "segment list option"

text \<open>One text edit of \<^verbatim>\<open>jsonc-parser\<close>: offset, length and replacement text.\<close>

record edit =
  edit_offset :: nat
  edit_length :: nat
  edit_content :: string

text \<open>
  What the module calls and does not define: \<^verbatim>\<open>JSON.parse\<close> (\<open>None\<close> when it throws),
  \<^verbatim>\<open>Number\<close>, the text of a number and whether it is finite, the number of a length,
  \<^verbatim>\<open>modify\<close> and \<^verbatim>\<open>applyEdits\<close> of \<^verbatim>\<open>jsonc-parser\<close> (\<open>None\<close> when they throw), and the
  graph parser that rebuilds the node set from a document text.
\<close>

record 'n host =
  JSON_parse :: "string \<Rightarrow> 'n jvalue option"
  Number :: "string \<Rightarrow> 'n"
  Number_toString :: "'n \<Rightarrow> string"
  isFinite :: "'n \<Rightarrow> bool"
  Number_of_length :: "nat \<Rightarrow> 'n"
  modify :: "string \<Rightarrow> segment list \<Rightarrow> 'n jvalue \<Rightarrow> edit list option"
  applyEdits :: "string \<Rightarrow> edit list \<Rightarrow> string option"
  parser :: "string \<Rightarrow> 'n NodeData list"

section \<open>Text of numbers, keys and strings\<close>

definition is_digit :: "char \<Rightarrow> bool" where
  "is_digit c = (48 \<le> (of_char c :: nat) \<and> (of_char c :: nat) \<le> 57)"

definition digit_char :: "nat \<Rightarrow> char" where
  "digit_char d = char_of (48 + d)"

text \<open>The decimal text of a non-negative integer, as \<^verbatim>\<open>ToString\<close> prints it.\<close>

fun show_nat :: "nat \<Rightarrow> string" where
  "show_nat n = (if n < 10 then [digit_char n] else show_nat (n div 10) @ [digit_char (n mod 10)])"

declare show_nat.simps [simp del]

definition digits_value :: "string \<Rightarrow> nat" where
  "digits_value s = foldl (\<lambda>a c. 10 * a + (of_char c - 48)) 0 s"

text \<open>
  A key is an array index when it is the canonical decimal text of an integer below
  \<open>2^32 - 1\<close>.
\<close>

definition array_index :: "string \<Rightarrow> nat option" where
  "array_index k =
     (if k \<noteq> [] \<and> list_all is_digit k \<and> (length k = 1 \<or> hd k \<noteq> CHR ''0'')
         \<and> digits_value k < 4294967295
      then Some (digits_value k) else None)"

definition hex_digit :: "nat \<Rightarrow> char" where
  "hex_digit d = (if d < 10 then char_of (48 + d) else char_of (87 + d))"

text \<open>\<^verbatim>\<open>QuoteJSONString\<close>: the escapes of \<^verbatim>\<open>JSON.stringify\<close> for one code unit.\<close>

definition escape_char :: "char \<Rightarrow> string" where
  "escape_char c =
     (if c = CHR 0x08 then [CHR 0x5C, CHR ''b'']
      else if c = CHR 0x09 then [CHR 0x5C, CHR ''t'']
      else if c = CHR 0x0A then [CHR 0x5C, CHR ''n'']
      else if c = CHR 0x0C then [CHR 0x5C, CHR ''f'']
      else if c = CHR 0x0D then [CHR 0x5C, CHR ''r'']
      else if c = CHR 0x22 then [CHR 0x5C, CHR 0x22]
      else if c = CHR 0x5C then [CHR 0x5C, CHR 0x5C]
      else if (of_char c :: nat) < 32 then
        [CHR 0x5C, CHR ''u'', CHR ''0'', CHR ''0'',
         hex_digit ((of_char c :: nat) div 16), hex_digit ((of_char c :: nat) mod 16)]
      else [c])"

definition quote :: "string \<Rightarrow> string" where
  "quote s = CHR 0x22 # concat (map escape_char s) @ [CHR 0x22]"

section \<open>Own properties of an object, in property order\<close>

text \<open>
  A new array-index key goes among the index keys in ascending order, before every
  other key; any other new key goes last; an existing key keeps its place.
\<close>

fun insert_index :: "nat \<Rightarrow> string \<Rightarrow> 'v \<Rightarrow> (string \<times> 'v) list \<Rightarrow> (string \<times> 'v) list" where
  "insert_index i k v [] = [(k, v)]"
| "insert_index i k v (e # es) =
     (case array_index (fst e) of
        Some j \<Rightarrow> if j < i then e # insert_index i k v es else (k, v) # e # es
      | None \<Rightarrow> (k, v) # e # es)"

definition CreateDataProperty :: "string \<Rightarrow> 'v \<Rightarrow> (string \<times> 'v) list \<Rightarrow> (string \<times> 'v) list" where
  "CreateDataProperty k v es =
     (case map_of es k of
        Some _ \<Rightarrow> AList.update k v es
      | None \<Rightarrow> (case array_index k of Some i \<Rightarrow> insert_index i k v es | None \<Rightarrow> es @ [(k, v)]))"

section \<open>normalizeNodeData\<close>

text \<open>\<^verbatim>\<open>`${value}`\<close>: the raw text of a row value.\<close>

fun template_text :: "'n host \<Rightarrow> 'n scalar \<Rightarrow> string" where
  "template_text h VUndefined = ''undefined''"
| "template_text h VNull = ''null''"
| "template_text h (VBool b) = (if b then ''true'' else ''false'')"
| "template_text h (VNum n) = Number_toString h n"
| "template_text h (VStr s) = s"

text \<open>
  \<^verbatim>\<open>JSON.stringify\<close> of a scalar: a string is quoted, a number that is not finite is
  \<^verbatim>\<open>null\<close>, and \<^verbatim>\<open>undefined\<close> has no text (\<open>None\<close>).
\<close>

fun stringify_scalar :: "'n host \<Rightarrow> 'n scalar \<Rightarrow> string option" where
  "stringify_scalar h VUndefined = None"
| "stringify_scalar h VNull = Some ''null''"
| "stringify_scalar h (VBool b) = Some (if b then ''true'' else ''false'')"
| "stringify_scalar h (VNum n) = Some (if isFinite h n then Number_toString h n else ''null'')"
| "stringify_scalar h (VStr s) = Some (quote s)"

text \<open>
  \<^verbatim>\<open>JSON.stringify(obj, null, 2)\<close> of an object of scalars: a member whose value is
  \<^verbatim>\<open>undefined\<close> is left out; the members are on lines of their own, indented by two
  spaces; no member gives \<^verbatim>\<open>{}\<close>.
\<close>

definition members :: "'n host \<Rightarrow> (string \<times> 'n scalar) list \<Rightarrow> string list" where
  "members h es =
     concat (map (\<lambda>(k, v). case stringify_scalar h v of
                              None \<Rightarrow> []
                            | Some s \<Rightarrow> [quote k @ '': '' @ s]) es)"

fun join :: "string \<Rightarrow> string list \<Rightarrow> string" where
  "join sep [] = []"
| "join sep [x] = x"
| "join sep (x # y # ys) = x @ sep @ join sep (y # ys)"

definition stringify_object :: "'n host \<Rightarrow> (string \<times> 'n scalar) list \<Rightarrow> string" where
  "stringify_object h es =
     (if members h es = [] then ''{}''
      else ''{'' @ [CHR 0x0A] @ ''  '' @ join ('','' @ [CHR 0x0A] @ ''  '') (members h es)
           @ [CHR 0x0A] @ ''}'')"

text \<open>
  \<^verbatim>\<open>obj[row.key] = row.value\<close> on the object literal \<^verbatim>\<open>{}\<close>. The object is its own
  properties and whether it still has \<^verbatim>\<open>Object.prototype\<close>: while it has, assigning to
  \<^verbatim>\<open>__proto__\<close> runs the inherited setter, which drops the prototype for \<^verbatim>\<open>null\<close>,
  ignores any other scalar, and creates no property.
\<close>

record 'n literal_object =
  has_prototype :: bool
  own :: "(string \<times> 'n scalar) list"

definition assign :: "string \<Rightarrow> 'n scalar \<Rightarrow> 'n literal_object \<Rightarrow> 'n literal_object" where
  "assign k v obj =
     (if k = ''__proto__'' \<and> has_prototype obj
      then (if v = VNull then obj\<lparr>has_prototype := False\<rparr> else obj)
      else obj\<lparr>own := CreateDataProperty k v (own obj)\<rparr>)"

text \<open>\<^verbatim>\<open>!row.key\<close>: the key is absent or the empty string.\<close>

definition no_key :: "'n NodeRow \<Rightarrow> bool" where
  "no_key row = (case row_key row of None \<Rightarrow> True | Some k \<Rightarrow> k = [])"

text \<open>The body of the \<^verbatim>\<open>forEach\<close>.\<close>

definition add_row :: "'n NodeRow \<Rightarrow> 'n literal_object \<Rightarrow> 'n literal_object" where
  "add_row row obj =
     (if row_type row \<noteq> ''array'' \<and> row_type row \<noteq> ''object''
      then (case row_key row of
              None \<Rightarrow> obj
            | Some k \<Rightarrow> if k \<noteq> [] then assign k (row_value row) obj else obj)
      else obj)"

definition normalizeNodeData :: "'n host \<Rightarrow> 'n NodeRow list option \<Rightarrow> string" where
  "normalizeNodeData h nodeRows =
     (case nodeRows of
        None \<Rightarrow> ''{}''
      | Some rows \<Rightarrow>
          if length rows = 0 then ''{}''
          else if length rows = 1 \<and> no_key (rows ! 0) then template_text h (row_value (rows ! 0))
          else stringify_object h
                 (own (fold add_row rows \<lparr>has_prototype = True, own = []\<rparr>)))"


text \<open>
  The rows that the loop keeps, and the key and value each contributes: the mapping of
  the specification, to compare with the object that \<open>fold add_row\<close> builds.
\<close>

definition kept :: "'n NodeRow \<Rightarrow> bool" where
  "kept r = (row_type r \<noteq> ''array'' \<and> row_type r \<noteq> ''object'' \<and> \<not> no_key r)"

definition row_pairs :: "'n NodeRow list \<Rightarrow> (string \<times> 'n scalar) list" where
  "row_pairs rows = map (\<lambda>r. (the (row_key r), row_value r)) (filter kept rows)"

section \<open>Parsing the edited text\<close>

text \<open>\<^verbatim>\<open>String.prototype.trim\<close>: white space and line terminators below 256.\<close>

definition is_space :: "char \<Rightarrow> bool" where
  "is_space c = ((of_char c :: nat) \<in> {9, 10, 11, 12, 13, 32, 160})"

definition trim :: "string \<Rightarrow> string" where
  "trim s = rev (dropWhile is_space (rev (dropWhile is_space s)))"

text \<open>\<^verbatim>\<open>/^[-]?[0-9]+(\.[0-9]+)?$/.test(s)\<close>\<close>

definition digits1 :: "string \<Rightarrow> bool" where
  "digits1 s = (s \<noteq> [] \<and> list_all is_digit s)"

definition number_literal :: "string \<Rightarrow> bool" where
  "number_literal s =
     (let body = (case s of [] \<Rightarrow> s | c # r \<Rightarrow> if c = CHR ''-'' then r else s);
          whole = takeWhile is_digit body;
          rest = dropWhile is_digit body
      in whole \<noteq> [] \<and>
         (case rest of [] \<Rightarrow> True | c # frac \<Rightarrow> c = CHR ''.'' \<and> digits1 frac))"

text \<open>
  The same set of texts in the words of the specification: an optional minus sign, one
  or more digits, and optionally a point followed by one or more digits.
\<close>

definition decimal_literal :: "string \<Rightarrow> bool" where
  "decimal_literal t =
     (\<exists>sign whole frac. t = sign @ whole @ frac \<and> (sign = [] \<or> sign = ''-'') \<and> digits1 whole
        \<and> (frac = [] \<or> (\<exists>ds. frac = CHR ''.'' # ds \<and> digits1 ds)))"

text \<open>
  Lines 60 to 76 of \<^verbatim>\<open>handleSave\<close>: \<^verbatim>\<open>JSON.parse\<close>, and in its \<^verbatim>\<open>catch\<close> the coercion of
  the trimmed text.
\<close>

definition editParser :: "'n host \<Rightarrow> string \<Rightarrow> 'n jvalue" where
  "editParser h editedText =
     (case JSON_parse h editedText of
        Some parsed \<Rightarrow> parsed
      | None \<Rightarrow>
          (let trimmed = trim editedText
           in if number_literal trimmed then JNum (Number h trimmed)
              else if trimmed = ''true'' \<or> trimmed = ''false'' then JBool (trimmed = ''true'')
              else if trimmed = ''null'' then JNull
              else JString trimmed))"

section \<open>Merging into the existing value\<close>

text \<open>
  \<^verbatim>\<open>cur[seg]\<close> reads an own property: a member of an object, an element or the length of
  an array, a code unit or the length of a string. A number segment is first turned
  into its decimal text. Properties inherited from the built-in prototypes are read as
  \<^verbatim>\<open>undefined\<close>: they are functions, or prototype objects without enumerable own
  properties, so that the value written in the end is the same.
\<close>

definition property_key :: "segment \<Rightarrow> string" where
  "property_key seg = (case seg of SKey s \<Rightarrow> s | SIdx i \<Rightarrow> show_nat i)"

fun get_prop :: "'n host \<Rightarrow> 'n jvalue \<Rightarrow> segment \<Rightarrow> 'n jvalue" where
  "get_prop h (JObject es) seg =
     (case map_of es (property_key seg) of Some v \<Rightarrow> v | None \<Rightarrow> JUndefined)"
| "get_prop h (JArray xs) seg =
     (case array_index (property_key seg) of
        Some i \<Rightarrow> if i < length xs then xs ! i else JUndefined
      | None \<Rightarrow> if property_key seg = ''length'' then JNum (Number_of_length h (length xs))
                else JUndefined)"
| "get_prop h (JString s) seg =
     (case array_index (property_key seg) of
        Some i \<Rightarrow> if i < length s then JString [s ! i] else JUndefined
      | None \<Rightarrow> if property_key seg = ''length'' then JNum (Number_of_length h (length s))
                else JUndefined)"
| "get_prop h v seg = JUndefined"

fun getAtPath :: "'n host \<Rightarrow> 'n jvalue \<Rightarrow> segment list \<Rightarrow> 'n jvalue" where
  "getAtPath h cur [] = cur"
| "getAtPath h cur (seg # p) =
     (if cur = JNull \<or> cur = JUndefined then JUndefined
      else getAtPath h (get_prop h cur seg) p)"

text \<open>\<^verbatim>\<open>v && typeof v === "object" && !Array.isArray(v)\<close>\<close>

fun isObject :: "'n jvalue \<Rightarrow> bool" where
  "isObject (JObject es) = True"
| "isObject v = False"

fun properties :: "'n jvalue \<Rightarrow> (string \<times> 'n jvalue) list" where
  "properties (JObject es) = es"
| "properties v = []"

text \<open>
  \<^verbatim>\<open>{ ...a, ...b }\<close>: a new object that receives the properties of \<open>a\<close>, then those of
  \<open>b\<close>, each in the order of its object.
\<close>

definition copy_properties :: "(string \<times> 'v) list \<Rightarrow> (string \<times> 'v) list \<Rightarrow> (string \<times> 'v) list" where
  "copy_properties src target = fold (\<lambda>(k, v). CreateDataProperty k v) src target"

definition spread :: "(string \<times> 'v) list \<Rightarrow> (string \<times> 'v) list \<Rightarrow> (string \<times> 'v) list" where
  "spread a b = copy_properties b (copy_properties a [])"

text \<open>
  Lines 84 to 105 of \<^verbatim>\<open>handleSave\<close>: the value to write. The inner \<^verbatim>\<open>catch\<close> is reached
  when \<^verbatim>\<open>JSON.parse\<close> of the document throws.
\<close>

definition mergeResolver :: "'n host \<Rightarrow> string \<Rightarrow> segment list \<Rightarrow> 'n jvalue \<Rightarrow> 'n jvalue" where
  "mergeResolver h originalJson path parsed =
     (case JSON_parse h originalJson of
        None \<Rightarrow> parsed
      | Some originalParsed \<Rightarrow>
          (let existingValue = getAtPath h originalParsed path
           in if isObject existingValue \<and> isObject parsed
              then JObject (spread (properties existingValue) (properties parsed))
              else parsed))"

section \<open>Comparing paths\<close>

text \<open>
  \<^verbatim>\<open>JSON.stringify\<close> of a path: the segments between brackets, separated by commas, a
  key quoted and an index in decimal. An absent path has no text.
\<close>

definition stringify_segment :: "segment \<Rightarrow> string" where
  "stringify_segment seg = (case seg of SKey s \<Rightarrow> quote s | SIdx i \<Rightarrow> show_nat i)"

definition stringify_path :: "segment list \<Rightarrow> string" where
  "stringify_path p = ''['' @ join '','' (map stringify_segment p) @ '']''"

definition stringify_path_opt :: "segment list option \<Rightarrow> string option" where
  "stringify_path_opt p = map_option stringify_path p"

section \<open>The modal session\<close>

text \<open>
  The state the modal reads and writes: the selection and the node set of the graph
  store, the document text of the JSON store, the mirror in the file store, the two
  state variables of the component, the dependencies \<^verbatim>\<open>[opened, nodeData?.id]\<close> seen by
  the last run of the effect, and the console.
\<close>

record 'n session =
  selectedNode :: "'n NodeData option"
  nodes :: "'n NodeData list"
  json :: string
  contents :: string
  hasChanges :: bool
  editing :: bool
  editedText :: string
  effect_deps :: "(bool \<times> string option) option"
  warnings :: "string list"

text \<open>
  Modelled from the spec: \<^verbatim>\<open>setJson\<close> of the JSON store is not in this module; the
  specification gives it as \<^verbatim>\<open>replaceText(string)\<close>, which replaces the document text
  and triggers the rebuild of the node set.
\<close>

definition setJson :: "'n host \<Rightarrow> string \<Rightarrow> 'n session \<Rightarrow> 'n session" where
  "setJson h newJson st = st\<lparr>json := newJson, nodes := parser h newJson\<rparr>"

text \<open>
  \<^verbatim>\<open>useEffect(..., [opened, nodeData?.id])\<close>: after a render the effect runs when it has
  not run before or when one of the two dependencies differs from the last run.
\<close>

definition useEffect_reset :: "bool \<Rightarrow> 'n session \<Rightarrow> 'n session" where
  "useEffect_reset opened st =
     (let deps = (opened, map_option node_id (selectedNode st))
      in if effect_deps st = Some deps then st
         else st\<lparr>editing := False, editedText := [], effect_deps := Some deps\<rparr>)"

definition handleEdit :: "'n host \<Rightarrow> 'n session \<Rightarrow> 'n session" where
  "handleEdit h st =
     st\<lparr>editedText := normalizeNodeData h
                         (Some (case selectedNode st of None \<Rightarrow> [] | Some nodeData \<Rightarrow> node_text nodeData)),
        editing := True\<rparr>"

definition handleCancel :: "'n session \<Rightarrow> 'n session" where
  "handleCancel st = st\<lparr>editing := False, editedText := []\<rparr>"

definition console_warn :: "'n session \<Rightarrow> 'n session" where
  "console_warn st = st\<lparr>warnings := warnings st @ [''Failed to apply edit to JSON'']\<rparr>"

text \<open>Lines 117 to 126: select the first rebuilt node whose path has the same text.\<close>

definition reselect :: "segment list \<Rightarrow> 'n session \<Rightarrow> 'n session" where
  "reselect path st =
     (case find (\<lambda>n. stringify_path_opt (node_path n) = Some (stringify_path path)) (nodes st) of
        Some match \<Rightarrow> st\<lparr>selectedNode := Some match\<rparr>
      | None \<Rightarrow> st)"

text \<open>
  Lines 107 to 111: \<^verbatim>\<open>modify\<close> computes the edits for the path (with the formatting
  options of the call, two spaces) and \<^verbatim>\<open>applyEdits\<close> applies them to the same text; an
  exception of either leaves the \<^verbatim>\<open>try\<close> block.
\<close>

definition DocumentPatcher :: "'n host \<Rightarrow> string \<Rightarrow> segment list \<Rightarrow> 'n jvalue \<Rightarrow> string option" where
  "DocumentPatcher h originalJson path valueToWrite =
     (case modify h originalJson path valueToWrite of
        None \<Rightarrow> None
      | Some edits \<Rightarrow> applyEdits h originalJson edits)"

definition handleSave :: "'n host \<Rightarrow> 'n session \<Rightarrow> 'n session" where
  "handleSave h st =
     (case selectedNode st of
        None \<Rightarrow> st
      | Some nodeData \<Rightarrow>
          (let parsed = editParser h (editedText st);
               originalJson = json st;
               path = (case node_path nodeData of None \<Rightarrow> [] | Some p \<Rightarrow> p);
               valueToWrite = mergeResolver h originalJson path parsed
           in case DocumentPatcher h originalJson path valueToWrite of
                None \<Rightarrow> console_warn st
              | Some newJson \<Rightarrow>
                  (reselect path
                     ((setJson h newJson st)\<lparr>contents := newJson, hasChanges := False\<rparr>))
                  \<lparr>editing := False, editedText := []\<rparr>))"

section \<open>Auxiliary notions for the proofs\<close>

text \<open>The three forms of an escape: the code unit itself, a two-character escape, a \<^verbatim>\<open>\u\<close> escape.\<close>

datatype shape = Plain | Short | Long

definition escape_shape :: "char \<Rightarrow> shape" where
  "escape_shape c =
     (if c \<in> {CHR 0x08, CHR 0x09, CHR 0x0A, CHR 0x0C, CHR 0x0D, CHR 0x22, CHR 0x5C} then Short
      else if (of_char c :: nat) < 32 then Long else Plain)"

text \<open>
  The classification of the trimmed text in the words of the specification: a decimal
  literal is a number, \<^verbatim>\<open>true\<close> and \<^verbatim>\<open>false\<close> are booleans, \<^verbatim>\<open>null\<close> is null, anything else is
  the text itself.
\<close>

definition classify :: "'n host \<Rightarrow> string \<Rightarrow> 'n jvalue" where
  "classify h t =
     (if decimal_literal t then JNum (Number h t)
      else if t = ''true'' then JBool True
      else if t = ''false'' then JBool False
      else if t = ''null'' then JNull
      else JString t)"

section \<open>A host and a document for the examples\<close>

text \<open>
  A host whose numbers are integers, whose \<^verbatim>\<open>JSON.parse\<close> knows the texts of the
  examples and throws on every other text, whose \<^verbatim>\<open>modify\<close> knows one edit, and whose
  \<^verbatim>\<open>applyEdits\<close> applies a single edit.
\<close>

definition doc_user :: string where
  \<open>doc_user = ''{"user":{"name":"Al","age":1,"tags":["x"]}}''\<close>

definition doc_user_saved :: string where
  \<open>doc_user_saved = ''{"user":{"name":"Al","age":2,"tags":["x"]}}''\<close>

definition doc_xy :: string where
  \<open>doc_xy = ''{"x":{"a":1,"b":2},"y":[1,2,3]}''\<close>

definition edit_age :: string where
  \<open>edit_age = ''{"age":2}''\<close>

definition value_user :: "int jvalue" where
  "value_user =
     JObject [(''user'', JObject [(''name'', JString ''Al''), (''age'', JNum 1),
                                  (''tags'', JArray [JString ''x''])])]"

definition value_xy :: "int jvalue" where
  "value_xy =
     JObject [(''x'', JObject [(''a'', JNum 1), (''b'', JNum 2)]),
              (''y'', JArray [JNum 1, JNum 2, JNum 3])]"

definition merged_user :: "int jvalue" where
  "merged_user =
     JObject [(''name'', JString ''Al''), (''age'', JNum 2), (''tags'', JArray [JString ''x''])]"

definition example_Number :: "string \<Rightarrow> int" where
  "example_Number s =
     (case s of
        [] \<Rightarrow> 0
      | c # r \<Rightarrow> if c = CHR ''-'' then - int (digits_value (takeWhile is_digit r))
                 else int (digits_value (takeWhile is_digit s)))"

definition example_toString :: "int \<Rightarrow> string" where
  "example_toString n = (if n < 0 then ''-'' @ show_nat (nat (- n)) else show_nat (nat n))"

definition example_applyEdits :: "string \<Rightarrow> edit list \<Rightarrow> string option" where
  "example_applyEdits doc edits =
     (case edits of
        [e] \<Rightarrow> if edit_offset e + edit_length e \<le> length doc
               then Some (take (edit_offset e) doc @ edit_content e
                          @ drop (edit_offset e + edit_length e) doc)
               else None
      | _ \<Rightarrow> None)"

definition row_name :: "int NodeRow" where
  "row_name = \<lparr>row_key = Some ''name'', row_value = VStr ''Al'', row_type = ''string''\<rparr>"

definition row_age :: "int \<Rightarrow> int NodeRow" where
  "row_age n = \<lparr>row_key = Some ''age'', row_value = VNum n, row_type = ''number''\<rparr>"

definition row_tags :: "int NodeRow" where
  "row_tags = \<lparr>row_key = Some ''tags'', row_value = VUndefined, row_type = ''array''\<rparr>"

definition row_x :: "int NodeRow" where
  "row_x = \<lparr>row_key = None, row_value = VStr ''x'', row_type = ''string''\<rparr>"

definition row_seven :: "int NodeRow" where
  "row_seven = \<lparr>row_key = Some [], row_value = VNum (- 7), row_type = ''number''\<rparr>"

definition node_user :: "int \<Rightarrow> int NodeData" where
  "node_user n =
     \<lparr>node_id = ''2'', node_text = [row_name, row_age n, row_tags],
      node_path = Some [SKey ''user'']\<rparr>"

definition nodes_saved :: "int NodeData list" where
  "nodes_saved =
     [\<lparr>node_id = ''1'',
       node_text = [\<lparr>row_key = Some ''user'', row_value = VUndefined, row_type = ''object''\<rparr>],
       node_path = Some []\<rparr>,
      node_user 2,
      \<lparr>node_id = ''3'', node_text = [row_x],
       node_path = Some [SKey ''user'', SKey ''tags'', SIdx 0]\<rparr>]"

definition example_host :: "int host" where
  \<open>example_host =
     \<lparr>JSON_parse = map_of [(doc_user, value_user), (doc_xy, value_xy),
                           (edit_age, JObject [(''age'', JNum 2)]),
                           (''42'', JNum 42), (''true'', JBool True), (''null'', JNull)],
      Number = example_Number,
      Number_toString = example_toString,
      isFinite = (\<lambda>n. True),
      Number_of_length = int,
      modify = (\<lambda>doc path v.
                  if doc = doc_user \<and> path = [SKey ''user''] \<and> v = merged_user
                  then Some [\<lparr>edit_offset = 8, edit_length = 34,
                               edit_content = ''{"name":"Al","age":2,"tags":["x"]}''\<rparr>]
                  else None),
      applyEdits = example_applyEdits,
      parser = (\<lambda>doc. if doc = doc_user_saved then nodes_saved else [])\<rparr>\<close>

definition session_editing :: "int session" where
  "session_editing =
     \<lparr>selectedNode = Some (node_user 1), nodes = [node_user 1], json = doc_user,
      contents = doc_user, hasChanges = False, editing = True, editedText = edit_age,
      effect_deps = Some (True, Some ''2''), warnings = []\<rparr>"

text \<open>
  The same session with no node selected, with a document text that \<^verbatim>\<open>JSON.parse\<close> rejects,
  with a selected node whose path runs through the number at \<^verbatim>\<open>user.age\<close>, as it is before
  the modal opens, and with another node selected.
\<close>

definition session_unselected :: "int session" where
  "session_unselected = session_editing\<lparr>selectedNode := None\<rparr>"




definition session_closed :: "int session" where
  "session_closed = session_editing\<lparr>effect_deps := Some (False, Some ''2'')\<rparr>"

definition session_other_node :: "int session" where
  "session_other_node = session_editing\<lparr>selectedNode := Some (nodes_saved ! 2)\<rparr>"


text \<open>A row with a number and the key \<^verbatim>\<open>__proto__\<close>.\<close>

definition row_proto :: "int NodeRow" where
  "row_proto = \<lparr>row_key = Some ''__proto__'', row_value = VNum 5, row_type = ''number''\<rparr>"

section \<open>Properties of property insertion\<close>

lemma set_insert_index: "set (insert_index i k v es) = insert (k, v) (set es)"
  by (induction es) (auto split: option.splits)

lemma map_of_insert_index:
  "map_of es k = None \<Longrightarrow> map_of (insert_index i k v es) = (map_of es)(k \<mapsto> v)"
proof (induction es)
  case Nil
  then show ?case by simp
next
  case (Cons e es)
  obtain k' v' where e: "e = (k', v')" by (cases e)
  from Cons.prems e have ne: "k' \<noteq> k" and rest: "map_of es k = None"
    by (auto split: if_splits)
  show ?case using Cons.IH [OF rest] ne e
    by (auto split: option.splits simp: fun_upd_twist)
qed

lemma keys_insert_index: "set (map fst (insert_index i k v es)) = insert k (set (map fst es))"
  by (induction es) (auto split: option.splits)

lemma distinct_insert_index:
  "map_of es k = None \<Longrightarrow> distinct (map fst es) \<Longrightarrow> distinct (map fst (insert_index i k v es))"
proof (induction es)
  case Nil
  then show ?case by simp
next
  case (Cons e es)
  obtain k' v' where e: "e = (k', v')" by (cases e)
  from Cons.prems e have ne: "k' \<noteq> k" and rest: "map_of es k = None"
    by (auto split: if_splits)
  have notin: "k \<notin> fst ` set es" using rest by (simp add: map_of_eq_None_iff)
  show ?case using Cons.IH [OF rest] Cons.prems(2) ne e notin keys_insert_index [of i k v es]
    by (auto split: option.splits)
qed

lemma map_of_CreateDataProperty:
  "map_of (CreateDataProperty k v es) = (map_of es)(k \<mapsto> v)"
proof (cases "map_of es k")
  case None
  then have "[k \<mapsto> v] ++ map_of es = (map_of es)(k \<mapsto> v)"
    by (auto simp: map_add_def fun_eq_iff split: option.splits)
  with None show ?thesis
    by (auto simp: CreateDataProperty_def map_of_insert_index split: option.splits)
next
  case (Some w)
  then show ?thesis by (simp add: CreateDataProperty_def update_conv')
qed

lemma set_update_subset: "set (AList.update k v es) \<subseteq> insert (k, v) (set es)"
  by (induction es) auto

lemma set_CreateDataProperty:
  "set (CreateDataProperty k v es) \<subseteq> insert (k, v) (set es)"
  using set_update_subset [of k v es]
  by (auto simp: CreateDataProperty_def set_insert_index split: option.splits)

lemma distinct_CreateDataProperty:
  "distinct (map fst es) \<Longrightarrow> distinct (map fst (CreateDataProperty k v es))"
  by (auto simp: CreateDataProperty_def distinct_update distinct_insert_index map_of_eq_None_iff
           split: option.splits)


lemma add_row_skip: "\<not> kept r \<Longrightarrow> add_row r obj = obj"
  by (auto simp: kept_def add_row_def no_key_def split: option.splits)

lemma add_row_kept: "kept r \<Longrightarrow> add_row r obj = assign (the (row_key r)) (row_value r) obj"
  by (auto simp: kept_def add_row_def no_key_def split: option.splits)

lemma fold_add_row_filter: "fold add_row rows obj = fold add_row (filter kept rows) obj"
  by (induction rows arbitrary: obj) (simp_all add: add_row_skip)

lemma own_assign_subset: "set (own (assign k v obj)) \<subseteq> insert (k, v) (set (own obj))"
  using set_CreateDataProperty [of k v "own obj"] by (auto simp: assign_def)

lemma own_assign_distinct:
  "distinct (map fst (own obj)) \<Longrightarrow> distinct (map fst (own (assign k v obj)))"
  by (simp add: assign_def distinct_CreateDataProperty)

lemma own_assign_lookup:
  "k' \<noteq> ''__proto__'' \<Longrightarrow>
   map_of (own (assign k v obj)) k' = (if k' = k then Some v else map_of (own obj) k')"
  by (auto simp: assign_def map_of_CreateDataProperty)

lemma row_pairs_Cons:
  "row_pairs (r # rows) =
     (if kept r then (the (row_key r), row_value r) # row_pairs rows else row_pairs rows)"
  by (simp add: row_pairs_def)

lemma fold_add_row_subset:
  "set (own (fold add_row rows obj)) \<subseteq> set (own obj) \<union> set (row_pairs rows)"
proof (induction rows arbitrary: obj)
  case Nil
  then show ?case by (simp add: row_pairs_def)
next
  case (Cons r rows)
  show ?case
  proof (cases "kept r")
    case True
    have "set (own (fold add_row rows (add_row r obj)))
            \<subseteq> set (own (add_row r obj)) \<union> set (row_pairs rows)"
      by (rule Cons.IH)
    moreover have "set (own (add_row r obj)) \<subseteq> insert (the (row_key r), row_value r) (set (own obj))"
      by (simp add: add_row_kept [OF True] own_assign_subset)
    ultimately show ?thesis using True by (auto simp: row_pairs_Cons)
  next
    case False
    then show ?thesis using Cons.IH [of obj] by (simp add: add_row_skip row_pairs_Cons)
  qed
qed

lemma fold_add_row_distinct:
  "distinct (map fst (own obj)) \<Longrightarrow> distinct (map fst (own (fold add_row rows obj)))"
proof (induction rows arbitrary: obj)
  case Nil
  then show ?case by simp
next
  case (Cons r rows)
  have "distinct (map fst (own (add_row r obj)))"
    using Cons.prems by (cases "kept r") (simp_all add: add_row_skip add_row_kept own_assign_distinct)
  then show ?case using Cons.IH by simp
qed

lemma fold_add_row_lookup:
  "k \<noteq> ''__proto__'' \<Longrightarrow>
   map_of (own (fold add_row rows obj)) k = (map_of (own obj) ++ map_of (rev (row_pairs rows))) k"
proof (induction rows arbitrary: obj)
  case Nil
  then show ?case by (simp add: row_pairs_def)
next
  case (Cons r rows)
  show ?case
  proof (cases "kept r")
    case True
    have "map_of (own (fold add_row (r # rows) obj)) k
            = (map_of (own (add_row r obj)) ++ map_of (rev (row_pairs rows))) k"
      using Cons.IH [OF Cons.prems] by simp
    also have "\<dots> = (map_of (own obj) ++ map_of (rev (row_pairs (r # rows)))) k"
      using True Cons.prems
      by (auto simp: row_pairs_Cons add_row_kept own_assign_lookup map_add_def
               split: option.splits)
    finally show ?thesis .
  next
    case False
    then show ?thesis using Cons.IH [OF Cons.prems, of obj]
      by (simp add: add_row_skip row_pairs_Cons)
  qed
qed

lemma join_indent:
  "ms \<noteq> [] \<Longrightarrow> ind @ join (sep @ ind) ms = join sep (map ((@) ind) ms)"
  by (induction "sep @ ind" ms rule: join.induct) auto

lemma members_origin:
  "m \<in> set (members h es) \<Longrightarrow>
   \<exists>k v s. (k, v) \<in> set es \<and> stringify_scalar h v = Some s \<and> m = quote k @ '': '' @ s"
proof -
  assume "m \<in> set (members h es)"
  then obtain k v where kv: "(k, v) \<in> set es"
    and m: "m \<in> set (case stringify_scalar h v of None \<Rightarrow> [] | Some s \<Rightarrow> [quote k @ '': '' @ s])"
    by (auto simp: members_def)
  then obtain s where "stringify_scalar h v = Some s" "m = quote k @ '': '' @ s"
    by (cases "stringify_scalar h v") auto
  with kv show ?thesis by blast
qed

lemma row_pairs_origin:
  "(k, v) \<in> set (row_pairs rows) \<Longrightarrow> \<exists>r\<in>set rows. kept r \<and> row_key r = Some k \<and> row_value r = v"
  by (auto simp: row_pairs_def kept_def no_key_def split: option.splits)

lemma kept_unfold:
  "kept r \<Longrightarrow> row_key r = Some k \<Longrightarrow>
   k \<noteq> [] \<and> row_type r \<noteq> ''array'' \<and> row_type r \<noteq> ''object''"
  by (simp add: kept_def no_key_def)

section \<open>The claims about normalizeNodeData\<close>

text \<open>
  What \<open>normalizeNodeData\<close> computes. Absent or empty rows give \<^verbatim>\<open>{}\<close>. In every case other
  than a single row without key the result is the text, one member per line and
  indented by two spaces, of the object \<open>obj\<close> built by the loop: its keys are distinct;
  apart from the key \<^verbatim>\<open>__proto__\<close> it maps each key to the value of the last kept row with
  that key, where a row is kept when its type is neither \<^verbatim>\<open>array\<close> nor \<^verbatim>\<open>object\<close> and it
  has a non-empty key; every entry of \<open>obj\<close>, and every member line of the text, comes
  from a row with that key whose type is neither \<^verbatim>\<open>array\<close> nor \<^verbatim>\<open>object\<close>; and a key that
  only rows typed \<^verbatim>\<open>array\<close> or \<^verbatim>\<open>object\<close> carry is not a key of \<open>obj\<close>.
\<close>

lemma normalizeNodeData_rules:
  "normalizeNodeData h None = ''{}'' \<and> normalizeNodeData h (Some []) = ''{}'' \<and>
   (rows \<noteq> [] \<and> \<not> (length rows = 1 \<and> no_key (rows ! 0)) \<longrightarrow>
      (let obj = own (fold add_row rows \<lparr>has_prototype = True, own = []\<rparr>);
           ms = members h obj
       in normalizeNodeData h (Some rows) =
            (if ms = [] then ''{}''
             else ''{'' @ [CHR 0x0A] @ join ('','' @ [CHR 0x0A]) (map ((@) ''  '') ms)
                  @ [CHR 0x0A] @ ''}'')
          \<and> distinct (map fst obj)
          \<and> (\<forall>k. k \<noteq> ''__proto__'' \<longrightarrow> map_of obj k = map_of (rev (row_pairs rows)) k)
          \<and> (\<forall>(k, v)\<in>set obj. \<exists>r\<in>set rows. row_key r = Some k \<and> k \<noteq> [] \<and> row_value r = v
                \<and> row_type r \<noteq> ''array'' \<and> row_type r \<noteq> ''object'')
          \<and> (\<forall>m\<in>set ms. \<exists>r\<in>set rows. \<exists>k s. row_key r = Some k
                \<and> row_type r \<noteq> ''array'' \<and> row_type r \<noteq> ''object''
                \<and> stringify_scalar h (row_value r) = Some s \<and> m = quote k @ '': '' @ s)
          \<and> (\<forall>k. (\<forall>r\<in>set rows. row_key r = Some k
                      \<longrightarrow> row_type r = ''array'' \<or> row_type r = ''object'')
                \<longrightarrow> k \<notin> fst ` set obj)))"
proof -
  define init :: "'a literal_object" where "init = \<lparr>has_prototype = True, own = []\<rparr>"
  define obj where "obj = own (fold add_row rows init)"
  define ms where "ms = members h obj"
  have sub: "set obj \<subseteq> set (row_pairs rows)"
    using fold_add_row_subset [of rows init] by (simp add: obj_def init_def)
  have dist: "distinct (map fst obj)"
    unfolding obj_def by (rule fold_add_row_distinct) (simp add: init_def)
  have look: "\<forall>k. k \<noteq> ''__proto__'' \<longrightarrow> map_of obj k = map_of (rev (row_pairs rows)) k"
    using fold_add_row_lookup [of _ rows init] by (simp add: obj_def init_def)
  have orig: "\<exists>r\<in>set rows. row_key r = Some k \<and> k \<noteq> [] \<and> row_value r = v
                \<and> row_type r \<noteq> ''array'' \<and> row_type r \<noteq> ''object''"
    if "(k, v) \<in> set obj" for k v
  proof -
    from that sub have "(k, v) \<in> set (row_pairs rows)" ..
    then obtain r where r: "r \<in> set rows" "kept r" "row_key r = Some k" "row_value r = v"
      using row_pairs_origin by metis
    from kept_unfold [OF r(2) r(3)] r show ?thesis by (intro bexI [of _ r]) simp_all
  qed
  have lines: "\<exists>r\<in>set rows. \<exists>k s. row_key r = Some k
                \<and> row_type r \<noteq> ''array'' \<and> row_type r \<noteq> ''object''
                \<and> stringify_scalar h (row_value r) = Some s \<and> m = quote k @ '': '' @ s"
    if "m \<in> set ms" for m
  proof -
    from that obtain k v s where kv: "(k, v) \<in> set obj" and s: "stringify_scalar h v = Some s"
      and m: "m = quote k @ '': '' @ s"
      unfolding ms_def using members_origin by metis
    from orig [OF kv] obtain r where r: "r \<in> set rows" and k: "row_key r = Some k"
      and v: "row_value r = v"
      and t: "row_type r \<noteq> ''array''" "row_type r \<noteq> ''object''" by metis
    show ?thesis
      by (rule bexI [OF _ r], rule exI [of _ k], rule exI [of _ s]) (simp add: k v t s m)
  qed
  have rendered: "normalizeNodeData h (Some rows) =
            (if ms = [] then ''{}''
             else ''{'' @ [CHR 0x0A] @ join ('','' @ [CHR 0x0A]) (map ((@) ''  '') ms)
                  @ [CHR 0x0A] @ ''}'')"
    if "rows \<noteq> []" "\<not> (length rows = 1 \<and> no_key (rows ! 0))"
  proof -
    have "normalizeNodeData h (Some rows) = stringify_object h obj"
      using that by (auto simp: normalizeNodeData_def obj_def init_def)
    then show ?thesis
      using join_indent [of ms "''  ''" "'','' @ [CHR 0x0A]"]
      by (simp add: stringify_object_def ms_def)
  qed
  have absent: "\<forall>k. (\<forall>r\<in>set rows. row_key r = Some k
                      \<longrightarrow> row_type r = ''array'' \<or> row_type r = ''object'')
                \<longrightarrow> k \<notin> fst ` set obj"
  proof (intro allI impI notI)
    fix k
    assume all: "\<forall>r\<in>set rows. row_key r = Some k
                      \<longrightarrow> row_type r = ''array'' \<or> row_type r = ''object''"
      and "k \<in> fst ` set obj"
    then obtain v where "(k, v) \<in> set obj" by auto
    from orig [OF this] obtain r where r: "r \<in> set rows" and k: "row_key r = Some k"
      and t: "row_type r \<noteq> ''array''" "row_type r \<noteq> ''object''" by metis
    have "row_type r = ''array'' \<or> row_type r = ''object''"
      by (rule bspec [OF all r, THEN mp, OF k])
    with t show False by simp
  qed
  have first: "normalizeNodeData h None = ''{}''" "normalizeNodeData h (Some []) = ''{}''"
    by (simp_all add: normalizeNodeData_def)
  have all_orig: "\<forall>(k, v)\<in>set obj. \<exists>r\<in>set rows. row_key r = Some k \<and> k \<noteq> [] \<and> row_value r = v
                \<and> row_type r \<noteq> ''array'' \<and> row_type r \<noteq> ''object''"
    using orig by (intro ballI) (simp add: split_beta)
  have all_lines: "\<forall>m\<in>set ms. \<exists>r\<in>set rows. \<exists>k s. row_key r = Some k
                \<and> row_type r \<noteq> ''array'' \<and> row_type r \<noteq> ''object''
                \<and> stringify_scalar h (row_value r) = Some s \<and> m = quote k @ '': '' @ s"
    using lines by (intro ballI)
  show ?thesis
    unfolding Let_def init_def [symmetric] obj_def [symmetric] ms_def [symmetric]
    by (intro conjI impI first dist look all_orig all_lines absent rendered) simp_all
qed

lemma normalizeNodeData_rules_example:
  \<open>[row_name, row_age 1, row_tags] \<noteq> []
   \<and> \<not> (length [row_name, row_age 1, row_tags] = 1 \<and> no_key ([row_name, row_age 1, row_tags] ! 0))
   \<and> normalizeNodeData example_host (Some [row_name, row_age 1, row_tags])
       = ''{'' @ [CHR 0x0A] @ ''  "name": "Al",'' @ [CHR 0x0A] @ ''  "age": 1'' @ [CHR 0x0A] @ ''}''\<close>
proof -
  let ?rows = "[row_name, row_age 1, row_tags]"
  have hyp: "?rows \<noteq> [] \<and> \<not> (length ?rows = 1 \<and> no_key (?rows ! 0))" by simp
  have obj: "own (fold add_row ?rows \<lparr>has_prototype = True, own = []\<rparr>)
               = [(''name'', VStr ''Al''), (''age'', VNum 1)]"
    by (simp add: row_name_def row_age_def row_tags_def add_row_def assign_def
          CreateDataProperty_def array_index_def digits_value_def is_digit_def)
  have ms: \<open>members example_host [(''name'', VStr ''Al''), (''age'', VNum 1)]
              = [''"name": "Al"'', ''"age": 1'']\<close>
    by (simp add: members_def example_host_def example_toString_def quote_def escape_char_def
          show_nat.simps digit_char_def char_of_eq_iff)
  from normalizeNodeData_rules [of example_host ?rows, THEN conjunct2, THEN conjunct2, THEN mp, OF hyp]
  have "normalizeNodeData example_host (Some ?rows) =
          (if members example_host (own (fold add_row ?rows \<lparr>has_prototype = True, own = []\<rparr>)) = []
           then ''{''  @ ''}''
           else ''{'' @ [CHR 0x0A] @ join ('','' @ [CHR 0x0A])
                  (map ((@) ''  '') (members example_host (own (fold add_row ?rows \<lparr>has_prototype = True, own = []\<rparr>))))
                  @ [CHR 0x0A] @ ''}'')"
    unfolding Let_def by (elim conjE) simp
  then show ?thesis unfolding obj ms using hyp by simp
qed

text \<open>
  Claim C6. The mapping is to skip only the rows typed \<^verbatim>\<open>array\<close> or \<^verbatim>\<open>object\<close> and the rows
  without key (the comment above the function: the object is returned with the array
  and object fields removed). The code misses one case: for the two rows
  \<^verbatim>\<open>__proto__\<close> with the number 5 and \<^verbatim>\<open>age\<close> with the number 1, both numbers with a key,
  the assignment \<^verbatim>\<open>obj["__proto__"] = 5\<close> on the object literal runs the inherited setter
  and creates no property, so that the row is dropped: the mapping of the kept rows has
  both keys, the object built by the loop and the text have \<^verbatim>\<open>age\<close> only.
\<close>

theorem normalizeNodeData_drops_proto_row:
  \<open>row_key row_proto = Some ''__proto__''
   \<and> row_type row_proto \<noteq> ''array'' \<and> row_type row_proto \<noteq> ''object''
   \<and> row_pairs [row_proto, row_age 1] = [(''__proto__'', VNum 5), (''age'', VNum 1)]
   \<and> own (fold add_row [row_proto, row_age 1] \<lparr>has_prototype = True, own = []\<rparr>)
       = [(''age'', VNum 1)]
   \<and> normalizeNodeData example_host (Some [row_proto, row_age 1])
       = ''{'' @ [CHR 0x0A] @ ''  "age": 1'' @ [CHR 0x0A] @ ''}''\<close>
proof -
  have obj: "own (fold add_row [row_proto, row_age 1] \<lparr>has_prototype = True, own = []\<rparr>)
               = [(''age'', VNum 1)]"
    by (simp add: row_proto_def row_age_def add_row_def assign_def
          CreateDataProperty_def array_index_def digits_value_def is_digit_def)
  have pairs: "row_pairs [row_proto, row_age 1] = [(''__proto__'', VNum 5), (''age'', VNum 1)]"
    by (simp add: row_pairs_def kept_def no_key_def row_proto_def row_age_def)
  have ms: \<open>members example_host [(''age'', VNum 1)] = [''"age": 1'']\<close>
    by (simp add: members_def example_host_def example_toString_def quote_def escape_char_def
          show_nat.simps digit_char_def char_of_eq_iff)
  have out: \<open>normalizeNodeData example_host (Some [row_proto, row_age 1])
               = ''{'' @ [CHR 0x0A] @ ''  "age": 1'' @ [CHR 0x0A] @ ''}''\<close>
  proof -
    have "normalizeNodeData example_host (Some [row_proto, row_age 1])
            = stringify_object example_host
                (own (fold add_row [row_proto, row_age 1] \<lparr>has_prototype = True, own = []\<rparr>))"
      by (simp add: normalizeNodeData_def del: fold_simps)
    then show ?thesis unfolding obj by (simp add: stringify_object_def ms)
  qed
  have row: "row_key row_proto = Some ''__proto__''"
    "row_type row_proto \<noteq> ''array''" "row_type row_proto \<noteq> ''object''"
    by (simp_all add: row_proto_def)
  from row pairs obj out show ?thesis by (intro conjI)
qed

text \<open>
  Claim C7, as amended. For a single row without key (its key absent or empty) the
  result is the raw text of the value, as a template literal prints it: a string value
  is not quoted. The raw text is the JSON serialization of the value when the value is
  \<^verbatim>\<open>null\<close>, a boolean or a finite number.
\<close>

theorem normalize_single_keyless:
  "no_key row \<Longrightarrow>
   normalizeNodeData h (Some [row]) = template_text h (row_value row)
   \<and> ((\<forall>s. row_value row \<noteq> VStr s) \<and> row_value row \<noteq> VUndefined
        \<and> (\<forall>n. row_value row = VNum n \<longrightarrow> isFinite h n)
       \<longrightarrow> stringify_scalar h (row_value row) = Some (normalizeNodeData h (Some [row])))"
  by (cases "row_value row") (simp_all add: normalizeNodeData_def)

theorem normalize_single_keyless_witness:
  "no_key row_seven \<and> isFinite example_host (- 7)
   \<and> normalizeNodeData example_host (Some [row_seven]) = ''-7''
   \<and> stringify_scalar example_host (VNum (- 7)) = Some ''-7''"
proof -
  have k: "no_key row_seven" by (simp add: no_key_def row_seven_def)
  have v: "row_value row_seven = VNum (- 7)" by (simp add: row_seven_def)
  have f: "isFinite example_host (- 7)" by (simp add: example_host_def)
  have t: "template_text example_host (VNum (- 7)) = ''-7''"
    by (simp add: example_host_def example_toString_def show_nat.simps digit_char_def char_of_eq_iff)
  have pre: "(\<forall>s. row_value row_seven \<noteq> VStr s) \<and> row_value row_seven \<noteq> VUndefined
        \<and> (\<forall>n. row_value row_seven = VNum n \<longrightarrow> isFinite example_host n)"
    using f by (simp add: v)
  note inst = normalize_single_keyless [OF k, of example_host]
  have a: "normalizeNodeData example_host (Some [row_seven]) = ''-7''"
    using inst [THEN conjunct1] unfolding v t .
  have b: "stringify_scalar example_host (VNum (- 7)) = Some ''-7''"
    using inst [THEN conjunct2, THEN mp, OF pre] unfolding v a .
  show ?thesis using k f a b by (intro conjI)
qed

text \<open>
  Claim C7 as stated fails for a string value: the single row without key whose value
  is the string \<^verbatim>\<open>x\<close> gives the text \<^verbatim>\<open>x\<close>, and its JSON serialization is \<^verbatim>\<open>"x"\<close>.
\<close>

theorem normalize_single_keyless_not_stringify:
  "no_key row_x
   \<and> Some (normalizeNodeData example_host (Some [row_x]))
       \<noteq> stringify_scalar example_host (row_value row_x)"
  by (simp add: normalizeNodeData_def row_x_def no_key_def quote_def escape_char_def)

section \<open>The claim about parsing the edited text\<close>

lemma split_digits:
  "list_all is_digit ds \<Longrightarrow> (r = [] \<or> \<not> is_digit (hd r)) \<Longrightarrow>
   takeWhile is_digit (ds @ r) = ds \<and> dropWhile is_digit (ds @ r) = r"
  by (cases r) (auto simp: list_all_iff takeWhile_append2 dropWhile_append2)

lemma number_body:
  "(let whole = takeWhile is_digit body; rest = dropWhile is_digit body
    in whole \<noteq> [] \<and> (case rest of [] \<Rightarrow> True | c # frac \<Rightarrow> c = CHR ''.'' \<and> digits1 frac))
   \<longleftrightarrow> (\<exists>whole frac. body = whole @ frac \<and> digits1 whole
          \<and> (frac = [] \<or> (\<exists>ds. frac = CHR ''.'' # ds \<and> digits1 ds)))"
  (is "?L \<longleftrightarrow> ?R")
proof
  assume l: ?L
  define whole where "whole = takeWhile is_digit body"
  define rest where "rest = dropWhile is_digit body"
  have "body = whole @ rest" by (simp add: whole_def rest_def)
  moreover have "digits1 whole"
    using l by (auto simp: digits1_def whole_def Let_def list_all_iff dest: set_takeWhileD)
  moreover have "rest = [] \<or> (\<exists>ds. rest = CHR ''.'' # ds \<and> digits1 ds)"
    using l by (cases rest) (auto simp: rest_def Let_def)
  ultimately show ?R by blast
next
  assume ?R
  then obtain whole frac where b: "body = whole @ frac" and w: "digits1 whole"
    and f: "frac = [] \<or> (\<exists>ds. frac = CHR ''.'' # ds \<and> digits1 ds)" by blast
  have nd: "\<not> is_digit (CHR ''.'')" by (simp add: is_digit_def)
  have "frac = [] \<or> \<not> is_digit (hd frac)" using f nd by auto
  with w have tw: "takeWhile is_digit body = whole" and dw: "dropWhile is_digit body = frac"
    unfolding b digits1_def using split_digits [of whole frac] by simp_all
  have "whole \<noteq> []" using w by (simp add: digits1_def)
  moreover have "case frac of [] \<Rightarrow> True | c # ds \<Rightarrow> c = CHR ''.'' \<and> digits1 ds"
    using f by auto
  ultimately show ?L unfolding Let_def tw dw by simp
qed

lemma number_literal_iff: "number_literal t \<longleftrightarrow> decimal_literal t"
proof (cases "\<exists>r. t = CHR ''-'' # r")
  case True
  then obtain r where t: "t = CHR ''-'' # r" by blast
  have nd: "\<not> is_digit (CHR ''-'')" by (simp add: is_digit_def)
  have "number_literal t \<longleftrightarrow> (\<exists>whole frac. r = whole @ frac \<and> digits1 whole
          \<and> (frac = [] \<or> (\<exists>ds. frac = CHR ''.'' # ds \<and> digits1 ds)))"
    unfolding number_body [symmetric] by (simp add: number_literal_def t)
  also have "\<dots> \<longleftrightarrow> decimal_literal t"
  proof
    assume "\<exists>whole frac. r = whole @ frac \<and> digits1 whole
          \<and> (frac = [] \<or> (\<exists>ds. frac = CHR ''.'' # ds \<and> digits1 ds))"
    then obtain whole frac where "r = whole @ frac" "digits1 whole"
      "frac = [] \<or> (\<exists>ds. frac = CHR ''.'' # ds \<and> digits1 ds)" by blast
    then show "decimal_literal t"
      unfolding decimal_literal_def t
      by (intro exI [of _ "''-''"] exI [of _ whole] exI [of _ frac]) simp
  next
    assume "decimal_literal t"
    then obtain sign whole frac where d: "t = sign @ whole @ frac" "sign = [] \<or> sign = ''-''"
      "digits1 whole" "frac = [] \<or> (\<exists>ds. frac = CHR ''.'' # ds \<and> digits1 ds)"
      unfolding decimal_literal_def by blast
    have "sign \<noteq> []"
    proof
      assume "sign = []"
      with d(1) t have "CHR ''-'' # r = whole @ frac" by simp
      moreover have "whole \<noteq> []" using d(3) by (simp add: digits1_def)
      ultimately have "hd whole = CHR ''-''" by (cases whole) simp_all
      with d(3) nd show False by (cases whole) (auto simp: digits1_def)
    qed
    with d t have "r = whole @ frac" by auto
    with d show "\<exists>whole frac. r = whole @ frac \<and> digits1 whole
          \<and> (frac = [] \<or> (\<exists>ds. frac = CHR ''.'' # ds \<and> digits1 ds))" by blast
  qed
  finally show ?thesis .
next
  case False
  then have body: "(case t of [] \<Rightarrow> t | c # r \<Rightarrow> if c = CHR ''-'' then r else t) = t"
    by (cases t) auto
  have "number_literal t \<longleftrightarrow> (\<exists>whole frac. t = whole @ frac \<and> digits1 whole
          \<and> (frac = [] \<or> (\<exists>ds. frac = CHR ''.'' # ds \<and> digits1 ds)))"
    unfolding number_body [symmetric] by (simp add: number_literal_def body)
  also have "\<dots> \<longleftrightarrow> decimal_literal t"
  proof
    assume "\<exists>whole frac. t = whole @ frac \<and> digits1 whole
          \<and> (frac = [] \<or> (\<exists>ds. frac = CHR ''.'' # ds \<and> digits1 ds))"
    then obtain whole frac where "t = whole @ frac" "digits1 whole"
      "frac = [] \<or> (\<exists>ds. frac = CHR ''.'' # ds \<and> digits1 ds)" by blast
    then show "decimal_literal t"
      unfolding decimal_literal_def
      by (intro exI [of _ "[]"] exI [of _ whole] exI [of _ frac]) simp
  next
    assume "decimal_literal t"
    then obtain sign whole frac where d: "t = sign @ whole @ frac" "sign = [] \<or> sign = ''-''"
      "digits1 whole" "frac = [] \<or> (\<exists>ds. frac = CHR ''.'' # ds \<and> digits1 ds)"
      unfolding decimal_literal_def by blast
    have "sign = []" using d(1,2) False by auto
    with d show "\<exists>whole frac. t = whole @ frac \<and> digits1 whole
          \<and> (frac = [] \<or> (\<exists>ds. frac = CHR ''.'' # ds \<and> digits1 ds))" by auto
  qed
  finally show ?thesis .
qed

text \<open>
  Claim C4. \<open>editParser\<close> returns a value for every text and has no failure branch: when
  \<^verbatim>\<open>JSON.parse\<close> of the full text succeeds the result is its value; otherwise it is the
  classification of the trimmed text (a decimal literal is a number, \<^verbatim>\<open>true\<close> and \<^verbatim>\<open>false\<close>
  are booleans, \<^verbatim>\<open>null\<close> is null, anything else is the trimmed text as a string). For each of
  the four example texts of the specification the result is what \<^verbatim>\<open>JSON.parse\<close> returns, and
  the stated value when \<^verbatim>\<open>JSON.parse\<close> throws.
\<close>

theorem editParser_total:
  "editParser h s = (case JSON_parse h s of Some v \<Rightarrow> v | None \<Rightarrow> classify h (trim s))
   \<and> editParser h ''42'' = (case JSON_parse h ''42'' of Some v \<Rightarrow> v | None \<Rightarrow> JNum (Number h ''42''))
   \<and> editParser h ''true'' = (case JSON_parse h ''true'' of Some v \<Rightarrow> v | None \<Rightarrow> JBool True)
   \<and> editParser h ''null'' = (case JSON_parse h ''null'' of Some v \<Rightarrow> v | None \<Rightarrow> JNull)
   \<and> editParser h ''abc'' = (case JSON_parse h ''abc'' of Some v \<Rightarrow> v | None \<Rightarrow> JString ''abc'')"
proof -
  have general: "editParser h t = (case JSON_parse h t of Some v \<Rightarrow> v | None \<Rightarrow> classify h (trim t))"
    for t
    by (auto simp: editParser_def classify_def Let_def number_literal_iff split: option.splits)
  have trims: "trim ''42'' = ''42''" "trim ''true'' = ''true''" "trim ''null'' = ''null''"
    "trim ''abc'' = ''abc''"
    by (simp_all add: trim_def is_space_def)
  have lits: "number_literal ''42''" "\<not> number_literal ''true''" "\<not> number_literal ''null''"
    "\<not> number_literal ''abc''"
    by (simp_all add: number_literal_def is_digit_def)
  have cls: "classify h ''42'' = JNum (Number h ''42'')" "classify h ''true'' = JBool True"
    "classify h ''null'' = JNull" "classify h ''abc'' = JString ''abc''"
    using lits by (simp_all add: classify_def number_literal_iff [symmetric])
  show ?thesis
    using general [of s] general [of "''42''"] general [of "''true''"] general [of "''null''"]
      general [of "''abc''"]
    by (simp only: trims cls simp_thms)
qed

theorem editParser_total_witness:
  "editParser example_host '' 007 '' = JNum 7
   \<and> editParser example_host ''42'' = JNum 42
   \<and> editParser example_host ''abc'' = JString ''abc''
   \<and> editParser example_host ''  false'' = JBool False"
proof -
  have p: "JSON_parse example_host '' 007 '' = None" "JSON_parse example_host ''42'' = Some (JNum 42)"
    "JSON_parse example_host ''abc'' = None" "JSON_parse example_host ''  false'' = None"
    by (simp_all add: example_host_def doc_user_def doc_xy_def edit_age_def)
  have t: "trim '' 007 '' = ''007''" "trim ''  false'' = ''false''"
    by (simp_all add: trim_def is_space_def)
  have n: "Number example_host ''007'' = 7"
    by (simp add: example_host_def example_Number_def digits_value_def is_digit_def)
  have l: "decimal_literal ''007''" "\<not> decimal_literal ''false''"
    unfolding number_literal_iff [symmetric] by (simp_all add: number_literal_def is_digit_def)
  have c: "classify example_host ''007'' = JNum 7" "classify example_host ''false'' = JBool False"
    using l n by (simp_all add: classify_def)
  have a: "editParser example_host '' 007 '' = JNum 7"
    using editParser_total [of example_host "'' 007 ''", THEN conjunct1] by (simp add: p t c)
  have b: "editParser example_host ''42'' = JNum 42"
    using editParser_total [of example_host "''42''", THEN conjunct1] by (simp add: p)
  have d: "editParser example_host ''abc'' = JString ''abc''"
    using editParser_total [of example_host "''abc''", THEN conjunct2] by (simp add: p)
  have e: "editParser example_host ''  false'' = JBool False"
    using editParser_total [of example_host "''  false''", THEN conjunct1] by (simp add: p t c)
  from a b d e show ?thesis by (intro conjI)
qed

section \<open>The claims about merging\<close>














section \<open>The text of a path determines the path\<close>

lemma of_char_digit_char: "d < 10 \<Longrightarrow> (of_char (digit_char d) :: nat) = 48 + d"
  by (simp add: digit_char_def)

lemma is_digit_digit_char: "d < 10 \<Longrightarrow> is_digit (digit_char d)"
  by (simp add: is_digit_def of_char_digit_char)

lemma digits_value_snoc: "digits_value (s @ [c]) = 10 * digits_value s + (of_char c - 48)"
  by (simp add: digits_value_def)

lemma digits_value_show_nat: "digits_value (show_nat n) = n"
proof (induction n rule: show_nat.induct)
  case (1 n)
  show ?case
  proof (cases "n < 10")
    case True
    then show ?thesis
      by (subst show_nat.simps) (simp add: digits_value_def of_char_digit_char)
  next
    case False
    then have "digits_value (show_nat (n div 10)) = n div 10" using 1 by simp
    with False show ?thesis
      by (subst show_nat.simps) (simp add: digits_value_snoc of_char_digit_char)
  qed
qed

lemma show_nat_inj: "show_nat m = show_nat n \<Longrightarrow> m = n"
  by (metis digits_value_show_nat)

lemma show_nat_digits: "list_all is_digit (show_nat n)"
proof (induction n rule: show_nat.induct)
  case (1 n)
  show ?case
  proof (cases "n < 10")
    case True
    then show ?thesis by (subst show_nat.simps) (simp add: is_digit_digit_char)
  next
    case False
    with 1 show ?thesis by (subst show_nat.simps) (simp add: is_digit_digit_char)
  qed
qed

lemma show_nat_nonempty: "show_nat n \<noteq> []"
  by (subst show_nat.simps) simp

lemma takeWhile_digits:
  "list_all is_digit ds \<Longrightarrow> r \<noteq> [] \<Longrightarrow> \<not> is_digit (hd r) \<Longrightarrow> takeWhile is_digit (ds @ r) = ds"
  by (cases r) (simp_all add: takeWhile_append2 list_all_iff)

lemma show_nat_prefix_free:
  assumes "show_nat m @ r1 = show_nat n @ r2"
    and "r1 \<noteq> []" "\<not> is_digit (hd r1)" "r2 \<noteq> []" "\<not> is_digit (hd r2)"
  shows "m = n \<and> r1 = r2"
proof -
  have "takeWhile is_digit (show_nat m @ r1) = show_nat m"
    using assms by (intro takeWhile_digits show_nat_digits)
  moreover have "takeWhile is_digit (show_nat n @ r2) = show_nat n"
    using assms by (intro takeWhile_digits show_nat_digits)
  ultimately have "show_nat m = show_nat n" using assms(1) by simp
  then show ?thesis using assms(1) show_nat_inj by auto
qed


lemma hex_digit_inj: "a < 16 \<Longrightarrow> b < 16 \<Longrightarrow> hex_digit a = hex_digit b \<Longrightarrow> a = b"
  by (auto simp: hex_digit_def split: if_splits)

lemma hex_pair_inj:
  assumes "(of_char c :: nat) < 32" "(of_char d :: nat) < 32"
    and "hex_digit ((of_char c :: nat) div 16) = hex_digit ((of_char d :: nat) div 16)"
    and "hex_digit ((of_char c :: nat) mod 16) = hex_digit ((of_char d :: nat) mod 16)"
  shows "c = d"
proof -
  have "(of_char c :: nat) div 16 = (of_char d :: nat) div 16"
    using assms(1,2,3) by (intro hex_digit_inj) auto
  moreover have "(of_char c :: nat) mod 16 = (of_char d :: nat) mod 16"
    using assms(4) by (intro hex_digit_inj) auto
  ultimately have "(of_char c :: nat) = of_char d"
    by (metis div_mult_mod_eq)
  then show ?thesis by simp
qed

lemma escape_plain: "escape_shape c = Plain \<Longrightarrow> escape_char c = [c] \<and> c \<noteq> CHR 0x5C \<and> c \<noteq> CHR 0x22"
  by (auto simp: escape_shape_def escape_char_def split: if_splits)

lemma escape_short:
  "escape_shape c = Short \<Longrightarrow> \<exists>x. escape_char c = [CHR 0x5C, x] \<and> x \<noteq> CHR ''u''"
  by (auto simp: escape_shape_def escape_char_def split: if_splits)

lemma escape_long:
  "escape_shape c = Long \<Longrightarrow>
   (of_char c :: nat) < 32 \<and>
   escape_char c = [CHR 0x5C, CHR ''u'', CHR ''0'', CHR ''0'',
         hex_digit ((of_char c :: nat) div 16), hex_digit ((of_char c :: nat) mod 16)]"
  by (auto simp: escape_shape_def escape_char_def split: if_splits)

lemma escape_short_inj:
  "escape_shape c = Short \<Longrightarrow> escape_shape d = Short \<Longrightarrow>
   escape_char c ! 1 = escape_char d ! 1 \<Longrightarrow> c = d"
  by (auto simp: escape_shape_def escape_char_def split: if_splits)

lemma escape_char_prefix_free:
  assumes "escape_char c @ x = escape_char d @ y"
  shows "c = d \<and> x = y"
proof (cases "escape_shape c"; cases "escape_shape d")
  assume "escape_shape c = Plain" "escape_shape d = Plain"
  then show ?thesis using assms escape_plain [of c] escape_plain [of d] by simp
next
  assume "escape_shape c = Plain" "escape_shape d = Short"
  then show ?thesis using assms escape_plain [of c] escape_short [of d] by auto
next
  assume "escape_shape c = Plain" "escape_shape d = Long"
  then show ?thesis using assms escape_plain [of c] escape_long [of d] by auto
next
  assume "escape_shape c = Short" "escape_shape d = Plain"
  then show ?thesis using assms escape_plain [of d] escape_short [of c] by auto
next
  assume cd: "escape_shape c = Short" "escape_shape d = Short"
  then obtain a b where ab: "escape_char c = [CHR 0x5C, a]" "escape_char d = [CHR 0x5C, b]"
    using escape_short by metis
  with assms have "a = b" "x = y" by simp_all
  then show ?thesis using escape_short_inj [OF cd] ab by simp
next
  assume "escape_shape c = Short" "escape_shape d = Long"
  then show ?thesis using assms escape_long [of d] escape_short [of c] by auto
next
  assume "escape_shape c = Long" "escape_shape d = Plain"
  then show ?thesis using assms escape_plain [of d] escape_long [of c] by auto
next
  assume "escape_shape c = Long" "escape_shape d = Short"
  then show ?thesis using assms escape_long [of c] escape_short [of d] by auto
next
  assume "escape_shape c = Long" "escape_shape d = Long"
  then show ?thesis using assms escape_long [of c] escape_long [of d] hex_pair_inj [of c d]
    by simp
qed

lemma escape_char_head: "escape_char c \<noteq> [] \<and> hd (escape_char c) \<noteq> CHR 0x22"
  by (cases "escape_shape c")
     (use escape_plain [of c] escape_short [of c] escape_long [of c] in auto)

lemma escaped_prefix_free:
  "concat (map escape_char s) @ CHR 0x22 # r1 = concat (map escape_char t) @ CHR 0x22 # r2
   \<Longrightarrow> s = t \<and> r1 = r2"
proof (induction s arbitrary: t)
  case Nil
  show ?case
  proof (cases t)
    case Nil
    with Nil.prems show ?thesis by simp
  next
    case (Cons d t')
    with Nil.prems have "hd (escape_char d @ concat (map escape_char t') @ CHR 0x22 # r2) = CHR 0x22"
      by (metis append_Nil concat.simps(1,2) list.map(1,2) list.sel(1) append_assoc)
    then show ?thesis using escape_char_head [of d] by (simp add: hd_append)
  qed
next
  case (Cons c s')
  show ?case
  proof (cases t)
    case Nil
    with Cons.prems have "hd (escape_char c @ concat (map escape_char s') @ CHR 0x22 # r1) = CHR 0x22"
      by simp
    then show ?thesis using escape_char_head [of c] by (simp add: hd_append)
  next
    case (Cons d t')
    with Cons.prems have
      "escape_char c @ (concat (map escape_char s') @ CHR 0x22 # r1)
        = escape_char d @ (concat (map escape_char t') @ CHR 0x22 # r2)" by simp
    from escape_char_prefix_free [OF this] Cons.IH [of t'] Cons show ?thesis by simp
  qed
qed

lemma quote_prefix_free: "quote s @ r1 = quote t @ r2 \<Longrightarrow> s = t \<and> r1 = r2"
  using escaped_prefix_free [of s r1 t r2] by (simp add: quote_def)


lemma show_nat_head: "is_digit (hd (show_nat n))"
  using show_nat_digits [of n] show_nat_nonempty [of n] by (cases "show_nat n") simp_all

lemma segment_head:
  "stringify_segment a \<noteq> [] \<and> hd (stringify_segment a) \<noteq> CHR '']''
     \<and> hd (stringify_segment a) \<noteq> CHR '',''"
proof (cases a)
  case (SKey s)
  then show ?thesis by (simp add: stringify_segment_def quote_def)
next
  case (SIdx i)
  have "\<not> is_digit (CHR '']'')" "\<not> is_digit (CHR '','')" by (simp_all add: is_digit_def)
  then show ?thesis using SIdx show_nat_head [of i] show_nat_nonempty [of i]
    by (auto simp: stringify_segment_def)
qed

lemma segment_prefix_free:
  assumes "stringify_segment a @ r1 = stringify_segment b @ r2"
    and "r1 \<noteq> []" "\<not> is_digit (hd r1)" "r2 \<noteq> []" "\<not> is_digit (hd r2)"
  shows "a = b \<and> r1 = r2"
proof (cases a; cases b)
  fix s t assume "a = SKey s" "b = SKey t"
  then show ?thesis using assms(1) quote_prefix_free [of s r1 t r2]
    by (simp add: stringify_segment_def)
next
  fix s j assume ab: "a = SKey s" "b = SIdx j"
  have "\<not> is_digit (CHR 0x22)" by (simp add: is_digit_def)
  moreover have "hd (stringify_segment a @ r1) = CHR 0x22"
    using ab by (simp add: stringify_segment_def quote_def)
  moreover have "hd (stringify_segment b @ r2) = hd (show_nat j)"
    using ab show_nat_nonempty [of j] by (simp add: stringify_segment_def hd_append)
  ultimately show ?thesis using assms(1) show_nat_head [of j] by simp
next
  fix i t assume ab: "a = SIdx i" "b = SKey t"
  have "\<not> is_digit (CHR 0x22)" by (simp add: is_digit_def)
  moreover have "hd (stringify_segment b @ r2) = CHR 0x22"
    using ab by (simp add: stringify_segment_def quote_def)
  moreover have "hd (stringify_segment a @ r1) = hd (show_nat i)"
    using ab show_nat_nonempty [of i] by (simp add: stringify_segment_def hd_append)
  ultimately show ?thesis using assms(1) show_nat_head [of i] by simp
next
  fix i j assume "a = SIdx i" "b = SIdx j"
  then show ?thesis using assms show_nat_prefix_free [of i r1 j r2]
    by (simp add: stringify_segment_def)
qed

lemma join_Cons:
  "join sep (x # xs) = x @ (if xs = [] then [] else sep @ join sep xs)"
  by (cases xs) simp_all

lemma joined_segments_inj:
  "join '','' (map stringify_segment p) @ CHR '']'' # r1
     = join '','' (map stringify_segment q) @ CHR '']'' # r2 \<Longrightarrow> p = q \<and> r1 = r2"
proof (induction p arbitrary: q)
  case Nil
  show ?case
  proof (cases q)
    case Nil
    with Nil.prems show ?thesis by simp
  next
    case (Cons b q')
    with Nil.prems obtain x where "CHR '']'' # r1 = stringify_segment b @ x"
      by (simp add: join_Cons)
    then have "hd (stringify_segment b @ x) = CHR '']''"
      by (metis list.sel(1))
    then show ?thesis using segment_head [of b] by (simp add: hd_append)
  qed
next
  case (Cons a p')
  have nd: "\<not> is_digit (CHR '']'')" "\<not> is_digit (CHR '','')" by (simp_all add: is_digit_def)
  define tail where "tail xs r = (if xs = [] then [] else '','' @ join '','' (map stringify_segment xs)) @ CHR '']'' # r" for xs r
  have tail_ok: "tail xs r \<noteq> [] \<and> \<not> is_digit (hd (tail xs r))" for xs r
    using nd by (simp add: tail_def)
  show ?case
  proof (cases q)
    case Nil
    with Cons.prems have "stringify_segment a @ tail p' r1 = CHR '']'' # r2"
      by (simp add: join_Cons tail_def)
    then have "hd (stringify_segment a @ tail p' r1) = CHR '']''"
      by simp
    then show ?thesis using segment_head [of a] by (simp add: hd_append)
  next
    case (Cons b q')
    with Cons.prems have eq: "stringify_segment a @ tail p' r1 = stringify_segment b @ tail q' r2"
      by (simp add: join_Cons tail_def)
    from segment_prefix_free [OF eq] tail_ok
    have ab: "a = b" and tl: "tail p' r1 = tail q' r2" by simp_all
    have "p' = q' \<and> r1 = r2"
    proof (cases "p' = []"; cases "q' = []")
      assume "p' = []" "q' = []"
      with tl show ?thesis by (simp add: tail_def)
    next
      assume "p' = []" "q' \<noteq> []"
      with tl show ?thesis by (simp add: tail_def)
    next
      assume "p' \<noteq> []" "q' = []"
      with tl show ?thesis by (simp add: tail_def)
    next
      assume "p' \<noteq> []" "q' \<noteq> []"
      with tl have "join '','' (map stringify_segment p') @ CHR '']'' # r1
                  = join '','' (map stringify_segment q') @ CHR '']'' # r2"
        by (simp add: tail_def)
      then show ?thesis by (rule Cons.IH)
    qed
    with ab Cons show ?thesis by simp
  qed
qed

lemma stringify_path_inj: "stringify_path p = stringify_path q \<Longrightarrow> p = q"
  using joined_segments_inj [of p "[]" q "[]"] by (simp add: stringify_path_def)

lemma same_path_text_iff:
  "stringify_path_opt (node_path n) = Some (stringify_path path) \<longleftrightarrow> node_path n = Some path"
  by (cases "node_path n") (auto simp: stringify_path_opt_def dest: stringify_path_inj)

lemma reselect_eq:
  "reselect path st =
     (case find (\<lambda>n. node_path n = Some path) (nodes st) of
        Some match \<Rightarrow> st\<lparr>selectedNode := Some match\<rparr>
      | None \<Rightarrow> st)"
  by (simp add: reselect_def same_path_text_iff)

lemma parse_edit_age: "JSON_parse example_host edit_age = Some (JObject [(''age'', JNum 2)])"
  by (simp add: example_host_def doc_user_def doc_xy_def edit_age_def)

lemma parse_doc_user: "JSON_parse example_host doc_user = Some value_user"
  by (simp add: example_host_def)

lemma editParser_edit_age: "editParser example_host edit_age = JObject [(''age'', JNum 2)]"
  by (simp add: editParser_def parse_edit_age)

lemma merge_user:
  "mergeResolver example_host doc_user [SKey ''user''] (JObject [(''age'', JNum 2)]) = merged_user"
  by (simp add: mergeResolver_def parse_doc_user value_user_def merged_user_def property_key_def
        spread_def copy_properties_def CreateDataProperty_def array_index_def digits_value_def
        is_digit_def)

lemma patch_user:
  "DocumentPatcher example_host doc_user [SKey ''user''] merged_user = Some doc_user_saved"
  by (simp add: DocumentPatcher_def example_host_def example_applyEdits_def doc_user_def
        doc_user_saved_def)

section \<open>The claims about the session\<close>

text \<open>
  Claim C10. When no node is selected, \<open>handleSave\<close> returns the session as it is, for
  every host: the document text, the editing flag, the edit buffer and everything else
  are unchanged, and no function of the host (in particular \<^verbatim>\<open>JSON.parse\<close>) has a part in
  the result.
\<close>

theorem handleSave_without_selection:
  "selectedNode st = None \<Longrightarrow> handleSave h st = st"
  by (simp add: handleSave_def)

theorem handleSave_without_selection_witness:
  "selectedNode session_unselected = None
   \<and> handleSave example_host session_unselected = session_unselected"
proof -
  have none: "selectedNode session_unselected = None" by (simp add: session_unselected_def)
  from handleSave_without_selection [OF none, of example_host] none show ?thesis by simp
qed




text \<open>
  Claim C8. When the effect runs for the first time, or when the opened flag or the
  identifier of the selected node differs from the last run, the session is put in the
  viewing state with an empty edit buffer, whatever the state before. (The effect
  tells a change of the selected node by its identifier.)
\<close>

theorem useEffect_reset_clears:
  "effect_deps st \<noteq> Some (opened, map_option node_id (selectedNode st)) \<Longrightarrow>
   editing (useEffect_reset opened st) = False \<and> editedText (useEffect_reset opened st) = []"
  by (simp add: useEffect_reset_def Let_def)

theorem useEffect_reset_clears_witness:
  "effect_deps session_closed \<noteq> Some (True, map_option node_id (selectedNode session_closed))
   \<and> editing session_closed
   \<and> editing (useEffect_reset True session_closed) = False
   \<and> editedText (useEffect_reset True session_closed) = []
   \<and> effect_deps session_other_node
        \<noteq> Some (True, map_option node_id (selectedNode session_other_node))
   \<and> editing session_other_node
   \<and> editing (useEffect_reset True session_other_node) = False
   \<and> editedText (useEffect_reset True session_other_node) = []"
proof -
  have a: "effect_deps session_closed \<noteq> Some (True, map_option node_id (selectedNode session_closed))"
    by (simp add: session_closed_def session_editing_def)
  have b: "effect_deps session_other_node
        \<noteq> Some (True, map_option node_id (selectedNode session_other_node))"
    by (simp add: session_other_node_def session_editing_def nodes_saved_def)
  have c: "editing session_closed" "editing session_other_node"
    by (simp_all add: session_closed_def session_other_node_def session_editing_def)
  from useEffect_reset_clears [OF a] useEffect_reset_clears [OF b] a b c show ?thesis by simp
qed

text \<open>
  Claim C9. After a save whose patch step succeeds, the node set is the one rebuilt
  from the new text, and the selection is the first rebuilt node whose path equals,
  segment by segment, the path captured before the edit; when no rebuilt node has that
  path the selection is the one from before and nothing fails.
\<close>

theorem handleSave_reselects:
  assumes "selectedNode st = Some nodeData"
    and "path = (case node_path nodeData of None \<Rightarrow> [] | Some p \<Rightarrow> p)"
    and "DocumentPatcher h (json st) path
           (mergeResolver h (json st) path (editParser h (editedText st))) = Some newJson"
  shows "json (handleSave h st) = newJson
         \<and> nodes (handleSave h st) = parser h newJson
         \<and> selectedNode (handleSave h st) =
             (case find (\<lambda>n. node_path n = Some path) (parser h newJson) of
                Some match \<Rightarrow> Some match
              | None \<Rightarrow> selectedNode st)"
proof -
  define st' where "st' = (setJson h newJson st)\<lparr>contents := newJson, hasChanges := False\<rparr>"
  have save: "handleSave h st = (reselect path st')\<lparr>editing := False, editedText := []\<rparr>"
    using assms by (simp add: handleSave_def Let_def st'_def)
  have st': "json st' = newJson" "nodes st' = parser h newJson" "selectedNode st' = selectedNode st"
    by (simp_all add: st'_def setJson_def)
  show ?thesis
    unfolding save reselect_eq using st'
    by (cases "find (\<lambda>n. node_path n = Some path) (nodes st')") simp_all
qed

theorem handleSave_reselects_witness:
  "selectedNode session_editing = Some (node_user 1)
   \<and> DocumentPatcher example_host (json session_editing) [SKey ''user'']
        (mergeResolver example_host (json session_editing) [SKey ''user'']
           (editParser example_host (editedText session_editing))) = Some doc_user_saved
   \<and> json (handleSave example_host session_editing) = doc_user_saved
   \<and> nodes (handleSave example_host session_editing) = nodes_saved
   \<and> selectedNode (handleSave example_host session_editing) = Some (node_user 2)"
proof -
  have sel: "selectedNode session_editing = Some (node_user 1)"
    by (simp add: session_editing_def)
  have path: "[SKey ''user''] = (case node_path (node_user 1) of None \<Rightarrow> [] | Some p \<Rightarrow> p)"
    by (simp add: node_user_def)
  have st: "json session_editing = doc_user" "editedText session_editing = edit_age"
    by (simp_all add: session_editing_def)
  have ok: "DocumentPatcher example_host (json session_editing) [SKey ''user'']
        (mergeResolver example_host (json session_editing) [SKey ''user'']
           (editParser example_host (editedText session_editing))) = Some doc_user_saved"
    unfolding st editParser_edit_age merge_user by (rule patch_user)
  have rebuilt: "parser example_host doc_user_saved = nodes_saved"
    by (simp add: example_host_def)
  have found: "find (\<lambda>n. node_path n = Some [SKey ''user'']) nodes_saved = Some (node_user 2)"
    by (simp add: nodes_saved_def node_user_def)
  from handleSave_reselects [OF sel path ok] sel ok show ?thesis
    unfolding rebuilt found by simp
qed

end
